theory Spec2Isabelle
  imports Complex_Main
begin

section \<open>The signal functions of mpmath (\<open>mpmath/functions/signals.py\<close>)\<close>

text \<open>
  The module defines five functions: \<open>squarew\<close>, \<open>trianglew\<close>, \<open>sawtoothw\<close>,
  \<open>unit_triangle\<close> and \<open>sigmoidw\<close>. Four of them take a numeric context \<open>ctx\<close> and call
  its methods \<open>floor\<close>, \<open>frac\<close>, \<open>fabs\<close> and \<open>exp\<close>; \<open>unit_triangle\<close> uses only
  Python's comparison, \<open>abs\<close> and arithmetic operators.

  The functions compute in floating point: every arithmetic operator of the source yields
  the exact result rounded to a number format. Two formats take part. An operator whose
  operands are the arguments \<open>t\<close>, \<open>amplitude\<close>, \<open>period\<close> and literals works in the format
  of the arguments, called \<open>h\<close> below: Python's \<open>float\<close> when the arguments are Python
  numbers. The methods of the context return numbers of the context (\<open>mpf\<close>), and an
  operator with such an operand works at the working precision of the context, the format
  \<open>f\<close> below. When the arguments are themselves \<open>mpf\<close> numbers, \<open>h\<close> is \<open>f\<close>.

  A number is modelled as the real it denotes; the values \<open>inf\<close> and \<open>nan\<close> are not
  modelled. A raised exception is a value \<open>Inl e\<close> of the result type. The keyword
  defaults \<open>amplitude=1\<close> and \<open>period=1\<close> are ordinary arguments here: a call that omits
  them is the call with \<open>1\<close> in their place.
\<close>

subsection \<open>Number formats and Python's arithmetic operators\<close>

datatype error = ZeroDivisionError | OverflowError

text \<open>
  A number format: \<open>rnd\<close> rounds an exact result to a number of the format, and \<open>ovf\<close>
  tells that a quotient is too large for the format, in which case Python's \<open>/\<close> on
  two ints raises \<open>OverflowError\<close>.
\<close>

record format =
  rnd :: "real \<Rightarrow> real"
  ovf :: "real \<Rightarrow> bool"

text \<open>A number of the format: rounding leaves it as it is, and it is in range.\<close>

definition rep :: "format \<Rightarrow> real \<Rightarrow> bool" where
  "rep f x \<longleftrightarrow> rnd f x = x \<and> \<not> ovf f x"

definition py_mul :: "format \<Rightarrow> real \<Rightarrow> real \<Rightarrow> real" where
  "py_mul f x y = rnd f (x * y)"

definition py_add :: "format \<Rightarrow> real \<Rightarrow> real \<Rightarrow> real" where
  "py_add f x y = rnd f (x + y)"

definition py_sub :: "format \<Rightarrow> real \<Rightarrow> real \<Rightarrow> real" where
  "py_sub f x y = rnd f (x - y)"

text \<open>
  Python's true division \<open>x / y\<close> raises \<open>ZeroDivisionError\<close> when the divisor is zero,
  before anything else; HOL's \<open>x / 0\<close> is \<open>0\<close>, so the check is written out.
\<close>

definition py_div :: "format \<Rightarrow> real \<Rightarrow> real \<Rightarrow> error + real" where
  "py_div f x y =
     (if y = 0 then Inl ZeroDivisionError
      else if ovf f (x / y) then Inl OverflowError
      else Inr (rnd f (x / y)))"

text \<open>
  Python's \<open>x ** n\<close> for an integer-valued exponent: repeated multiplication for
  \<open>n \<ge> 0\<close>, the reciprocal of \<open>x ** (-n)\<close> for \<open>n < 0\<close>. The source applies it to the
  base \<open>-1\<close> only, where the result \<open>1\<close> or \<open>-1\<close> is exact.
\<close>

definition py_pow :: "real \<Rightarrow> int \<Rightarrow> real" where
  "py_pow x n = (if 0 \<le> n then x ^ nat n else 1 / x ^ nat (- n))"

subsection \<open>Binary floating-point formats\<close>

text \<open>
  Rounding to the nearest integer, ties to the even one, and rounding to the nearest
  multiple of \<open>2 ^ k\<close>.
\<close>

definition rne :: "real \<Rightarrow> int" where
  "rne y =
     (let n = \<lfloor>y\<rfloor>; r = y - of_int n in
      if r < 1 / 2 then n
      else if 1 / 2 < r then n + 1
      else if even n then n else n + 1)"

definition round_to :: "int \<Rightarrow> real \<Rightarrow> real" where
  "round_to k x = of_int (rne (x / 2 powi k)) * 2 powi k"

text \<open>
  IEEE 754 binary64, the format of Python's \<open>float\<close>: a number \<open>x\<close> with
  \<open>2 ^ e \<le> \<bar>x\<bar> < 2 ^ (e + 1)\<close> is rounded to the nearest multiple of \<open>2 ^ (e - 52)\<close>,
  ties to even, and below \<open>2 ^ (- 1022)\<close> to a multiple of \<open>2 ^ (- 1074)\<close>. A quotient
  that rounds to \<open>2 ^ 1024\<close> or beyond is too large for a float.
\<close>

definition ulp_exp :: "real \<Rightarrow> int" where
  "ulp_exp x = max \<lfloor>log 2 \<bar>x\<bar>\<rfloor> (- 1022) - 52"

definition round_double :: "real \<Rightarrow> real" where
  "round_double x = (if x = 0 then 0 else round_to (ulp_exp x) x)"

definition double :: format where
  "double = \<lparr>rnd = round_double, ovf = (\<lambda>x. 2 ^ 1024 \<le> \<bar>round_double x\<bar>)\<rparr>"

text \<open>
  The numbers of a context with a working precision of \<open>p\<close> bits (\<open>mp.prec = p\<close>, by
  default \<open>53\<close>): \<open>p\<close> significant bits, ties to even, and an exponent without bounds, so
  that no result is out of range.
\<close>

definition prec_exp :: "nat \<Rightarrow> real \<Rightarrow> int" where
  "prec_exp p x = \<lfloor>log 2 \<bar>x\<bar>\<rfloor> - (int p - 1)"

definition round_prec :: "nat \<Rightarrow> real \<Rightarrow> real" where
  "round_prec p x = (if x = 0 then 0 else round_to (prec_exp p x) x)"

definition mpf :: "nat \<Rightarrow> format" where
  "mpf p = \<lparr>rnd = round_prec p, ovf = (\<lambda>x. False)\<rparr>"

subsection \<open>The numeric context\<close>

text \<open>
  The context object the functions receive as their first argument. Its fields are the
  four methods the module calls. \<open>floor\<close> yields an integer-valued number, represented
  here as an \<^typ>\<open>int\<close>. \<open>exp\<close> may raise (the exponential of a context of machine
  floats overflows), so it returns a result.
\<close>

record ctx =
  floor_ctx :: "real \<Rightarrow> int"
  frac_ctx :: "real \<Rightarrow> real"
  fabs :: "real \<Rightarrow> real"
  exp_ctx :: "real \<Rightarrow> error + real"

text \<open>
  Modelled from the spec: the methods \<open>floor\<close>, \<open>frac\<close>, \<open>fabs\<close> and \<open>exp\<close> of the
  numeric context, whose class is not part of \<open>signals.py\<close>. The specification names them
  \<open>floor(x)\<close>, \<open>frac(x) = x - floor(x)\<close>, \<open>abs(x)\<close> and \<open>exp(x)\<close>, each correctly
  rounded to the working precision of the context, here the format \<open>f\<close>. The floor and
  the absolute value of a number are taken exactly, so only \<open>frac\<close> and \<open>exp\<close> round.
  The exponent of a number of the context has no bounds, so \<open>exp\<close> does not raise.
\<close>

definition mp :: "format \<Rightarrow> ctx" where
  "mp f = \<lparr>floor_ctx = (\<lambda>x. \<lfloor>x\<rfloor>),
            frac_ctx = (\<lambda>x. rnd f (x - of_int \<lfloor>x\<rfloor>)),
            fabs = (\<lambda>x. \<bar>x\<bar>),
            exp_ctx = (\<lambda>x. Inr (rnd f (exp x)))\<rparr>"

subsection \<open>The five functions\<close>

text \<open>
  \<^verbatim>\<open>
  def squarew(ctx, t, amplitude=1, period=1):
      P = period
      A = amplitude
      return A*((-1)**ctx.floor(2*t/P))
  \<close>
  The product \<open>2*t\<close> and the quotient by \<open>P\<close> are operations on the arguments; the
  product of \<open>A\<close> with the power is an operation with a number of the context.
\<close>

definition squarew :: "format \<Rightarrow> format \<Rightarrow> ctx \<Rightarrow> real \<Rightarrow> real \<Rightarrow> real \<Rightarrow> error + real" where
  "squarew h f c t amplitude period =
     (let P = period; A = amplitude in
      case py_div h (py_mul h 2 t) P of
        Inl e \<Rightarrow> Inl e
      | Inr q \<Rightarrow> Inr (py_mul f A (py_pow (- 1) (floor_ctx c q))))"

text \<open>
  \<^verbatim>\<open>
  def trianglew(ctx, t, amplitude=1, period=1):
      A = amplitude
      P = period
      return 2*A*(0.5 - ctx.fabs(1 - 2*ctx.frac(t/P + 0.25)))
  \<close>
  The quotient \<open>t/P\<close>, its sum with \<open>0.25\<close> and the product \<open>2*A\<close> are operations on
  the arguments; the others have a number of the context as an operand.
\<close>

definition trianglew :: "format \<Rightarrow> format \<Rightarrow> ctx \<Rightarrow> real \<Rightarrow> real \<Rightarrow> real \<Rightarrow> error + real" where
  "trianglew h f c t amplitude period =
     (let A = amplitude; P = period in
      case py_div h t P of
        Inl e \<Rightarrow> Inl e
      | Inr q \<Rightarrow>
          Inr (py_mul f (py_mul h 2 A)
                 (py_sub f (1 / 2)
                    (fabs c (py_sub f 1 (py_mul f 2 (frac_ctx c (py_add h q (1 / 4)))))))))"

text \<open>
  \<^verbatim>\<open>
  def sawtoothw(ctx, t, amplitude=1, period=1):
      A = amplitude
      P = period
      return A*ctx.frac(t/P)
  \<close>
\<close>

definition sawtoothw :: "format \<Rightarrow> format \<Rightarrow> ctx \<Rightarrow> real \<Rightarrow> real \<Rightarrow> real \<Rightarrow> error + real" where
  "sawtoothw h f c t amplitude period =
     (let A = amplitude; P = period in
      case py_div h t P of
        Inl e \<Rightarrow> Inl e
      | Inr q \<Rightarrow> Inr (py_mul f A (frac_ctx c q)))"

text \<open>
  \<^verbatim>\<open>
  def unit_triangle(t, amplitude=1):
      A = amplitude
      if t <= -1 or t >= 1:
          return 0
      return A*(-abs(t) + 1)
  \<close>
  No context takes part: every operation is one on the arguments.
\<close>

definition unit_triangle :: "format \<Rightarrow> real \<Rightarrow> real \<Rightarrow> real" where
  "unit_triangle h t amplitude =
     (let A = amplitude in
      if t \<le> - 1 \<or> t \<ge> 1 then 0
      else py_mul h A (py_add h (- \<bar>t\<bar>) 1))"

text \<open>
  \<^verbatim>\<open>
  def sigmoidw(ctx, t, amplitude=1):
      A = amplitude
      return A / (1 + ctx.exp(-t))
  \<close>
  The negation is exact; the sum and the quotient have a number of the context as an
  operand.
\<close>

definition sigmoidw :: "format \<Rightarrow> ctx \<Rightarrow> real \<Rightarrow> real \<Rightarrow> error + real" where
  "sigmoidw f c t amplitude =
     (let A = amplitude in
      case exp_ctx c (- t) of
        Inl e \<Rightarrow> Inl e
      | Inr v \<Rightarrow> py_div f A (py_add f 1 v))"

section \<open>Properties\<close>

subsection \<open>Facts about rounding\<close>

lemma powi_floor_log:
  assumes "0 < x"
  shows "2 powi \<lfloor>log 2 x\<rfloor> \<le> x" and "x < 2 powi (\<lfloor>log 2 x\<rfloor> + 1)"
proof -
  have a: "2 powr (of_int \<lfloor>log 2 x\<rfloor>) = (2 :: real) powi \<lfloor>log 2 x\<rfloor>"
    using powr_real_of_int' [of 2 "\<lfloor>log 2 x\<rfloor>"] by simp
  have b: "2 powr (of_int \<lfloor>log 2 x\<rfloor> + 1) = (2 :: real) powi (\<lfloor>log 2 x\<rfloor> + 1)"
    using powr_real_of_int' [of 2 "\<lfloor>log 2 x\<rfloor> + 1"] by simp
  have "2 powr (of_int \<lfloor>log 2 x\<rfloor>) \<le> x \<and> x < 2 powr (of_int \<lfloor>log 2 x\<rfloor> + 1)"
    using floor_log_eq_powr_iff [of x 2 "\<lfloor>log 2 x\<rfloor>"] assms by simp
  then show "2 powi \<lfloor>log 2 x\<rfloor> \<le> x" and "x < 2 powi (\<lfloor>log 2 x\<rfloor> + 1)"
    unfolding a b by simp_all
qed

lemma floor_log_at:
  assumes "2 powi e \<le> \<bar>x\<bar>" "\<bar>x\<bar> < 2 powi (e + 1)"
  shows "\<lfloor>log 2 \<bar>x\<bar>\<rfloor> = e"
proof -
  have pos: "0 < \<bar>x\<bar>"
    using assms(1) by (smt (verit) zero_less_power_int)
  have "2 powr (of_int e) = (2 :: real) powi e"
    using powr_real_of_int' [of 2 e] by simp
  moreover have "2 powr (of_int e + 1) = (2 :: real) powi (e + 1)"
    using powr_real_of_int' [of 2 "e + 1"] by simp
  ultimately have "2 powr (of_int e) \<le> \<bar>x\<bar> \<and> \<bar>x\<bar> < 2 powr (of_int e + 1)"
    using assms by simp
  then show ?thesis
    using pos by (simp add: floor_log_eq_powr_iff)
qed

lemma nonzero_at: "2 powi e \<le> \<bar>x :: real\<bar> \<Longrightarrow> x \<noteq> 0"
  by (smt (verit) zero_less_power_int abs_zero)

lemma round_double_at:
  assumes "2 powi e \<le> \<bar>x\<bar>" "\<bar>x\<bar> < 2 powi (e + 1)" "- 1022 \<le> e"
  shows "round_double x = of_int (rne (x / 2 powi (e - 52))) * 2 powi (e - 52)"
  using assms nonzero_at [OF assms(1)]
  by (simp add: round_double_def ulp_exp_def floor_log_at [OF assms(1,2)] round_to_def)

lemma round_prec_at:
  assumes "2 powi e \<le> \<bar>x\<bar>" "\<bar>x\<bar> < 2 powi (e + 1)"
  shows "round_prec p x = of_int (rne (x / 2 powi (e - (int p - 1)))) * 2 powi (e - (int p - 1))"
  using assms nonzero_at [OF assms(1)]
  by (simp add: round_prec_def prec_exp_def floor_log_at [OF assms] round_to_def)

lemma round_prec_53_at:
  assumes "2 powi e \<le> \<bar>x\<bar>" "\<bar>x\<bar> < 2 powi (e + 1)"
  shows "round_prec 53 x = of_int (rne (x / 2 powi (e - 52))) * 2 powi (e - 52)"
  using round_prec_at [OF assms, of 53] by simp

lemma rne_mono: "x \<le> y \<Longrightarrow> rne x \<le> rne y"
proof -
  assume le: "x \<le> y"
  have fl: "\<lfloor>x\<rfloor> \<le> \<lfloor>y\<rfloor>" using le by (rule floor_mono)
  have ux: "rne x \<le> \<lfloor>x\<rfloor> + 1" and ly: "\<lfloor>y\<rfloor> \<le> rne y"
    by (auto simp: rne_def Let_def)
  show ?thesis
  proof (cases "\<lfloor>x\<rfloor> < \<lfloor>y\<rfloor>")
    case True
    then show ?thesis using ux ly by linarith
  next
    case False
    then have eq: "\<lfloor>x\<rfloor> = \<lfloor>y\<rfloor>" using fl by simp
    then show ?thesis using le by (auto simp: rne_def Let_def)
  qed
qed

lemma rne_minus: "rne (- x) = - rne x"
proof (cases "x \<in> \<int>")
  case True
  then obtain n where "x = of_int n" by (auto elim: Ints_cases)
  then show ?thesis by (simp add: rne_def)
next
  case False
  then have "of_int \<lfloor>x\<rfloor> \<noteq> x"
    by (metis Ints_of_int)
  then have lt: "of_int \<lfloor>x\<rfloor> < x"
    using of_int_floor_le [of x] by linarith
  have ub: "x < of_int \<lfloor>x\<rfloor> + 1"
    by linarith
  have f: "\<lfloor>- x\<rfloor> = - \<lfloor>x\<rfloor> - 1"
  proof (rule floor_unique)
    show "of_int (- \<lfloor>x\<rfloor> - 1) \<le> - x" using ub by (simp only: of_int_diff of_int_minus of_int_1)
    show "- x < of_int (- \<lfloor>x\<rfloor> - 1) + 1" using lt by (simp only: of_int_diff of_int_minus of_int_1)
  qed
  show ?thesis
    unfolding rne_def Let_def f using lt by (auto simp: algebra_simps)
qed

lemma rne_of_int: "rne (of_int n) = n"
  by (simp add: rne_def)

lemma rne_nonneg: "0 \<le> x \<Longrightarrow> 0 \<le> rne x"
  using rne_mono [of 0 x] rne_of_int [of 0] by simp

lemma round_to_mono: "x \<le> y \<Longrightarrow> round_to k x \<le> round_to k y"
proof -
  assume "x \<le> y"
  then have "x / 2 powi k \<le> y / 2 powi k"
    by (simp add: divide_right_mono)
  then have "rne (x / 2 powi k) \<le> rne (y / 2 powi k)"
    by (rule rne_mono)
  then show ?thesis
    by (simp add: round_to_def)
qed

lemma round_to_minus: "round_to k (- x) = - round_to k x"
  by (simp add: round_to_def rne_minus)

lemma round_to_nonneg: "0 \<le> x \<Longrightarrow> 0 \<le> round_to k x"
  by (simp add: round_to_def rne_nonneg)

lemma round_to_powi: "k \<le> n \<Longrightarrow> round_to k (2 powi n) = 2 powi n"
proof -
  assume le: "k \<le> n"
  have "(2 :: real) powi n / 2 powi k = 2 powi (n - k)"
    by (simp add: power_int_diff)
  also have "\<dots> = of_int (2 ^ nat (n - k))"
    using le by (simp add: power_int_def)
  finally have q: "(2 :: real) powi n / 2 powi k = of_int (2 ^ nat (n - k))" .
  have "round_to k (2 powi n) = of_int (2 ^ nat (n - k)) * 2 powi k"
    unfolding round_to_def q rne_of_int ..
  also have "\<dots> = 2 powi n / 2 powi k * 2 powi k"
    unfolding q ..
  also have "\<dots> = 2 powi n"
    by simp
  finally show ?thesis .
qed

text \<open>
  Rounding with an exponent \<open>u x\<close> of the last place that grows with \<open>x\<close> is monotone on
  the positive numbers, when \<open>x\<close> lies below \<open>2 ^ (u x + p)\<close> and a number with a larger
  exponent lies at or above the power of two where that exponent begins.
\<close>

lemma round_with_mono_pos:
  fixes u :: "real \<Rightarrow> int" and p :: int
  assumes grow: "\<And>x y. 0 < x \<Longrightarrow> x \<le> y \<Longrightarrow> u x \<le> u y"
    and below: "\<And>x. 0 < x \<Longrightarrow> x < 2 powi (u x + p)"
    and above: "\<And>x y. 0 < x \<Longrightarrow> x \<le> y \<Longrightarrow> u x < u y \<Longrightarrow> 2 powi (u y + p - 1) \<le> y"
    and p: "0 < p" and x: "0 < x" and le: "x \<le> y"
  shows "round_to (u x) x \<le> round_to (u y) y"
proof (cases "u x = u y")
  case True
  then show ?thesis
    using le by (simp add: round_to_mono)
next
  case False
  then have lt: "u x < u y"
    using grow [OF x le] by simp
  have "round_to (u x) x \<le> round_to (u x) (2 powi (u x + p))"
    using below [OF x] by (intro round_to_mono) simp
  also have "\<dots> = 2 powi (u x + p)"
    using p by (intro round_to_powi) simp
  also have "\<dots> \<le> 2 powi (u y + p - 1)"
    using lt by (intro power_int_increasing) simp_all
  also have "\<dots> = round_to (u y) (2 powi (u y + p - 1))"
    using p by (intro round_to_powi [symmetric]) simp
  also have "\<dots> \<le> round_to (u y) y"
    using above [OF x le lt] by (rule round_to_mono)
  finally show ?thesis .
qed

lemma floor_log_mono: "0 < x \<Longrightarrow> x \<le> y \<Longrightarrow> \<lfloor>log 2 \<bar>x\<bar>\<rfloor> \<le> \<lfloor>log 2 \<bar>y\<bar>\<rfloor>"
proof -
  assume "0 < x" "x \<le> y"
  then have "log 2 \<bar>x\<bar> \<le> log 2 \<bar>y\<bar>"
    by simp
  then show ?thesis
    by (rule floor_mono)
qed

lemma round_double_mono_pos:
  assumes "0 < x" "x \<le> y"
  shows "round_double x \<le> round_double y"
proof -
  have posy: "0 < y" using assms by linarith
  have "round_to (ulp_exp x) x \<le> round_to (ulp_exp y) y"
  proof (rule round_with_mono_pos [where p = 53])
    show "ulp_exp a \<le> ulp_exp b" if "0 < a" "a \<le> b" for a b
      using floor_log_mono [OF that] by (simp add: ulp_exp_def)
    show "a < 2 powi (ulp_exp a + 53)" if "0 < a" for a
    proof -
      have "\<lfloor>log 2 a\<rfloor> + 1 \<le> ulp_exp a + 53"
        using that by (simp add: ulp_exp_def)
      then have "(2 :: real) powi (\<lfloor>log 2 a\<rfloor> + 1) \<le> 2 powi (ulp_exp a + 53)"
        by (intro power_int_increasing) simp_all
      then show ?thesis
        using powi_floor_log(2) [OF that] by linarith
    qed
    show "2 powi (ulp_exp b + 53 - 1) \<le> b" if "0 < a" "a \<le> b" "ulp_exp a < ulp_exp b" for a b
    proof -
      have posb: "0 < b" using that by linarith
      have "- 1074 \<le> ulp_exp a"
        by (simp add: ulp_exp_def)
      then have "- 1074 < ulp_exp b"
        using that(3) by linarith
      then have "ulp_exp b + 53 - 1 = \<lfloor>log 2 b\<rfloor>"
        using posb by (simp add: ulp_exp_def max_def split: if_splits)
      then show ?thesis
        using powi_floor_log(1) [OF posb] by simp
    qed
  qed (use assms in simp_all)
  then show ?thesis
    using assms posy by (simp add: round_double_def)
qed

lemma round_prec_mono_pos:
  assumes "0 < p" "0 < x" "x \<le> y"
  shows "round_prec p x \<le> round_prec p y"
proof -
  have posy: "0 < y" using assms by linarith
  have "round_to (prec_exp p x) x \<le> round_to (prec_exp p y) y"
  proof (rule round_with_mono_pos [where p = "int p"])
    show "prec_exp p a \<le> prec_exp p b" if "0 < a" "a \<le> b" for a b
      using floor_log_mono [OF that] by (simp add: prec_exp_def)
    show "a < 2 powi (prec_exp p a + int p)" if "0 < a" for a
      using powi_floor_log(2) [OF that] that by (simp add: prec_exp_def)
    show "2 powi (prec_exp p b + int p - 1) \<le> b" if "0 < a" "a \<le> b" for a b
    proof -
      have posb: "0 < b" using that by linarith
      then show ?thesis
        using powi_floor_log(1) [OF posb] by (simp add: prec_exp_def)
    qed
  qed (use assms in simp_all)
  then show ?thesis
    using assms posy by (simp add: round_prec_def)
qed

lemma round_double_minus: "round_double (- x) = - round_double x"
  by (simp add: round_double_def ulp_exp_def round_to_minus)

lemma round_prec_minus: "round_prec p (- x) = - round_prec p x"
  by (simp add: round_prec_def prec_exp_def round_to_minus)

lemma round_double_nonneg: "0 \<le> x \<Longrightarrow> 0 \<le> round_double x"
  by (simp add: round_double_def round_to_nonneg)

lemma round_prec_nonneg: "0 \<le> x \<Longrightarrow> 0 \<le> round_prec p x"
  by (simp add: round_prec_def round_to_nonneg)

text \<open>
  A rounding that is monotone on the positive numbers, odd and non-negative on the
  non-negative numbers is monotone.
\<close>

lemma mono_from_pos:
  fixes r :: "real \<Rightarrow> real"
  assumes pos: "\<And>x y. 0 < x \<Longrightarrow> x \<le> y \<Longrightarrow> r x \<le> r y"
    and odd: "\<And>x. r (- x) = - r x"
    and nonneg: "\<And>x. 0 \<le> x \<Longrightarrow> 0 \<le> r x"
    and le: "x \<le> y"
  shows "r x \<le> r y"
proof -
  consider "0 < x" | "x \<le> 0" "0 \<le> y" | "y < 0" by linarith
  then show ?thesis
  proof cases
    case 1
    then show ?thesis using le by (rule pos)
  next
    case 2
    have "0 \<le> r (- x)" using 2(1) by (intro nonneg) simp
    then have "r x \<le> 0" by (simp add: odd)
    also have "0 \<le> r y" using 2(2) by (rule nonneg)
    finally show ?thesis .
  next
    case 3
    then have "r (- y) \<le> r (- x)"
      using le by (intro pos) simp_all
    then show ?thesis by (simp add: odd)
  qed
qed

lemma round_double_mono: "x \<le> y \<Longrightarrow> round_double x \<le> round_double y"
  by (rule mono_from_pos [of round_double])
    (simp_all add: round_double_mono_pos round_double_minus round_double_nonneg)

lemma round_prec_mono: "0 < p \<Longrightarrow> x \<le> y \<Longrightarrow> round_prec p x \<le> round_prec p y"
  by (rule mono_from_pos [of "round_prec p"])
    (simp_all add: round_prec_mono_pos round_prec_minus round_prec_nonneg)

lemma round_double_powi:
  assumes "- 1022 \<le> e"
  shows "round_double (2 powi e) = 2 powi e"
proof -
  have "(2 :: real) powi e < 2 powi (e + 1)"
    by (intro power_int_strict_increasing) simp_all
  then have "round_double (2 powi e) = round_to (e - 52) (2 powi e)"
    using round_double_at [of e "2 powi e"] assms by (simp add: round_to_def)
  then show ?thesis
    by (simp add: round_to_powi)
qed

lemma ovf_double_large: "2 ^ 1024 \<le> \<bar>x\<bar> \<Longrightarrow> ovf double x"
proof -
  assume big: "2 ^ 1024 \<le> \<bar>x\<bar>"
  have p: "round_double (2 ^ 1024) = 2 ^ 1024"
    using round_double_powi [of 1024] by simp
  have "round_double (2 ^ 1024) \<le> round_double \<bar>x\<bar>"
    using big by (rule round_double_mono)
  moreover have "round_double \<bar>x\<bar> = \<bar>round_double x\<bar>"
    using round_double_nonneg [of x] round_double_nonneg [of "- x"]
    by (cases "0 \<le> x") (simp_all add: round_double_minus abs_if)
  ultimately show ?thesis
    unfolding p by (simp add: double_def)
qed

lemma rep_double_at:
  assumes "2 powi e \<le> \<bar>x\<bar>" "\<bar>x\<bar> < 2 powi (e + 1)" "- 1022 \<le> e" "e < 1024"
    and "of_int (rne (x / 2 powi (e - 52))) * 2 powi (e - 52) = x"
  shows "rep double x"
proof -
  have r: "round_double x = x"
    using round_double_at [OF assms(1-3)] assms(5) by simp
  have "(2 :: real) powi (e + 1) \<le> 2 powi 1024"
    using assms(4) by (intro power_int_increasing) simp_all
  then have "\<bar>x\<bar> < 2 ^ 1024"
    using assms(2) by simp
  with r show ?thesis
    by (simp add: rep_def double_def)
qed

lemma rep_mpf_at:
  assumes "2 powi e \<le> \<bar>x\<bar>" "\<bar>x\<bar> < 2 powi (e + 1)"
    and "of_int (rne (x / 2 powi (e - 52))) * 2 powi (e - 52) = x"
  shows "rep (mpf 53) x"
  using round_prec_53_at [OF assms(1,2)] assms(3) by (simp add: rep_def mpf_def)

lemma rep_zero: "rep double 0" "rep (mpf p) 0"
  by (simp_all add: rep_def double_def mpf_def round_double_def round_prec_def)

lemma rep_double_consts:
  "rep double 1" "rep double 2" "rep double 3" "rep double 6"
  "rep double (1 / 2)" "rep double (1 / 4)" "rep double (3 / 4)" "rep double (3 / 2)"
  "rep double (5 / 4)" "rep double (- 1 / 2)" "rep double (- 1)"
proof -
  show "rep double 1" by (rule rep_double_at [of 0]) (simp_all add: rne_def)
  show "rep double 2" by (rule rep_double_at [of 1]) (simp_all add: rne_def)
  show "rep double 3" by (rule rep_double_at [of 1]) (simp_all add: rne_def)
  show "rep double 6" by (rule rep_double_at [of 2]) (simp_all add: rne_def)
  show "rep double (1 / 2)" by (rule rep_double_at [of "- 1"]) (simp_all add: rne_def)
  show "rep double (1 / 4)" by (rule rep_double_at [of "- 2"]) (simp_all add: rne_def)
  show "rep double (3 / 4)" by (rule rep_double_at [of "- 1"]) (simp_all add: rne_def)
  show "rep double (3 / 2)" by (rule rep_double_at [of 0]) (simp_all add: rne_def)
  show "rep double (5 / 4)" by (rule rep_double_at [of 0]) (simp_all add: rne_def)
  show "rep double (- 1 / 2)" by (rule rep_double_at [of "- 1"]) (simp_all add: rne_def)
  show "rep double (- 1)" by (rule rep_double_at [of 0]) (simp_all add: rne_def)
qed

lemma rep_mpf_consts:
  "rep (mpf 53) 1" "rep (mpf 53) 2" "rep (mpf 53) 3" "rep (mpf 53) (- 3)"
  "rep (mpf 53) (1 / 2)" "rep (mpf 53) (1 / 4)" "rep (mpf 53) (3 / 4)" "rep (mpf 53) (3 / 2)"
  "rep (mpf 53) (- 1 / 2)" "rep (mpf 53) (- 1)" "rep (mpf 53) (- 3 / 2)"
proof -
  show "rep (mpf 53) 1" by (rule rep_mpf_at [of 0]) (simp_all add: rne_def)
  show "rep (mpf 53) 2" by (rule rep_mpf_at [of 1]) (simp_all add: rne_def)
  show "rep (mpf 53) 3" by (rule rep_mpf_at [of 1]) (simp_all add: rne_def)
  show "rep (mpf 53) (- 3)" by (rule rep_mpf_at [of 1]) (simp_all add: rne_def)
  show "rep (mpf 53) (1 / 2)" by (rule rep_mpf_at [of "- 1"]) (simp_all add: rne_def)
  show "rep (mpf 53) (1 / 4)" by (rule rep_mpf_at [of "- 2"]) (simp_all add: rne_def)
  show "rep (mpf 53) (3 / 4)" by (rule rep_mpf_at [of "- 1"]) (simp_all add: rne_def)
  show "rep (mpf 53) (3 / 2)" by (rule rep_mpf_at [of 0]) (simp_all add: rne_def)
  show "rep (mpf 53) (- 1 / 2)" by (rule rep_mpf_at [of "- 1"]) (simp_all add: rne_def)
  show "rep (mpf 53) (- 1)" by (rule rep_mpf_at [of 0]) (simp_all add: rne_def)
  show "rep (mpf 53) (- 3 / 2)" by (rule rep_mpf_at [of 0]) (simp_all add: rne_def)
qed


lemma py_pow_neg_one: "py_pow (- 1) n = (if even n then 1 else - 1)"
  by (auto simp: py_pow_def even_nat_iff)


subsection \<open>Period zero\<close>

text \<open>
  C6: with \<open>period = 0\<close>, each of \<open>squarew\<close>, \<open>trianglew\<close> and \<open>sawtoothw\<close> raises
  \<open>ZeroDivisionError\<close>, for every \<open>t\<close>, every amplitude, every context and every number
  format; no value is returned.
\<close>

theorem period_zero_raises:
  "squarew h f c t A 0 = Inl ZeroDivisionError \<and>
   trianglew h f c t A 0 = Inl ZeroDivisionError \<and>
   sawtoothw h f c t A 0 = Inl ZeroDivisionError"
  by (simp add: squarew_def trianglew_def sawtoothw_def py_div_def)

text \<open>
  The three waves at \<open>t = 1\<close>, amplitude \<open>1\<close> and period \<open>0\<close>, with Python's floats and
  the context at \<open>53\<close> bits.
\<close>

theorem period_zero_raises_witness:
  "squarew double (mpf 53) (mp (mpf 53)) 1 1 0 = Inl ZeroDivisionError \<and>
   trianglew double (mpf 53) (mp (mpf 53)) 1 1 0 = Inl ZeroDivisionError \<and>
   sawtoothw double (mpf 53) (mp (mpf 53)) 1 1 0 = Inl ZeroDivisionError"
  using period_zero_raises [of double "mpf 53" "mp (mpf 53)" 1 1]
  by simp

subsection \<open>The sawtooth wave\<close>

lemma sawtoothw_rounded:
  assumes "P \<noteq> 0" "\<not> ovf h (t / P)"
  shows "sawtoothw h f (mp f) t A P = Inr (rnd f (A * rnd f (frac (rnd h (t / P)))))"
  using assms by (simp add: sawtoothw_def py_div_def py_mul_def mp_def frac_def)

lemma sawtoothw_exact_quotient:
  assumes "P \<noteq> 0" "rep h (t / P)"
  shows "sawtoothw h f (mp f) t A P = Inr (rnd f (A * rnd f (frac (t / P))))"
  using assms by (simp add: sawtoothw_rounded rep_def)

text \<open>
  C3, as amended: for numbers \<open>t\<close> and \<open>P \<noteq> 0\<close> of the format of the arguments whose
  quotient is in range, and every amplitude \<open>A\<close>, \<open>sawtoothw\<close> returns the product, rounded
  to the working precision, of \<open>A\<close> and the context's fractional part of the rounded
  quotient \<open>t / P\<close>. The value is \<open>A * frac (t / P)\<close> when the quotient, its fractional
  part and the product are computed without rounding. At a period boundary \<open>t = k * P\<close>
  whose quotient \<open>k\<close> is a number of the format the value is exactly \<open>0\<close>.
\<close>

theorem sawtoothw_formula:
  assumes "P \<noteq> 0" "rep h t" "rep h P"
  shows "(\<not> ovf h (t / P) \<longrightarrow>
            sawtoothw h f (mp f) t A P = Inr (rnd f (A * rnd f (frac (rnd h (t / P)))))) \<and>
         (rep h (t / P) \<and> rep f (frac (t / P)) \<and> rep f (A * frac (t / P)) \<longrightarrow>
            sawtoothw h f (mp f) t A P = Inr (A * frac (t / P))) \<and>
         (t = of_int k * P \<and> rep h (of_int k) \<and> rep f 0 \<longrightarrow>
            sawtoothw h f (mp f) t A P = Inr 0)"
proof (intro conjI impI)
  assume "\<not> ovf h (t / P)"
  with assms(1) show "sawtoothw h f (mp f) t A P = Inr (rnd f (A * rnd f (frac (rnd h (t / P)))))"
    by (rule sawtoothw_rounded)
next
  assume "rep h (t / P) \<and> rep f (frac (t / P)) \<and> rep f (A * frac (t / P))"
  then show "sawtoothw h f (mp f) t A P = Inr (A * frac (t / P))"
    using assms(1) by (simp add: sawtoothw_exact_quotient) (simp add: rep_def)
next
  assume g: "t = of_int k * P \<and> rep h (of_int k) \<and> rep f 0"
  then have "t / P = (of_int k :: real)"
    using assms(1) by simp
  then have "rep h (t / P)" "frac (t / P) = 0"
    using g by simp_all
  then show "sawtoothw h f (mp f) t A P = Inr 0"
    using assms(1) g by (simp add: sawtoothw_exact_quotient) (simp add: rep_def)
qed

text \<open>
  The sawtooth of period \<open>2\<close> and amplitude \<open>1\<close> at \<open>t = 1/2\<close> and at the boundary
  \<open>t = 2\<close>, with Python's floats and the context at \<open>53\<close> bits.
\<close>

theorem sawtoothw_formula_witness:
  "(2 :: real) \<noteq> 0 \<and> rep double (1 / 2) \<and> rep double 2 \<and> \<not> ovf double (1 / 2 / 2) \<and>
   rep double (1 / 2 / 2) \<and> rep (mpf 53) (frac (1 / 2 / 2)) \<and>
   rep (mpf 53) (1 * frac (1 / 2 / 2)) \<and>
   sawtoothw double (mpf 53) (mp (mpf 53)) (1 / 2) 1 2 = Inr (1 / 4) \<and>
   (2 :: real) = of_int 1 * 2 \<and> rep double (of_int 1) \<and> rep (mpf 53) 0 \<and>
   sawtoothw double (mpf 53) (mp (mpf 53)) 2 1 2 = Inr 0"
proof -
  note d = rep_double_consts and m = rep_mpf_consts
  have p: "(2 :: real) \<noteq> 0"
    by simp
  have fr: "frac (1 / 4 :: real) = 1 / 4"
    by (simp add: frac_eq)
  have q: "rep double (1 / 2 / 2)" "rep (mpf 53) (frac (1 / 2 / 2))"
    "rep (mpf 53) (1 * frac (1 / 2 / 2))"
    using d m fr by simp_all
  have a: "sawtoothw double (mpf 53) (mp (mpf 53)) (1 / 2) 1 2 = Inr (1 / 4)"
    using sawtoothw_formula [OF p d(5) d(2), where f = "mpf 53" and A = 1 and k = 0, THEN conjunct2,
        THEN conjunct1] q fr
    by simp
  have b: "sawtoothw double (mpf 53) (mp (mpf 53)) 2 1 2 = Inr 0"
    using sawtoothw_formula [OF p d(2) d(2), where f = "mpf 53" and A = 1 and k = 1, THEN conjunct2,
        THEN conjunct2]
      d(1) rep_zero(2) [of 53]
    by simp
  have c: "\<not> ovf double (1 / 2 / 2)"
    using q(1) by (simp add: rep_def)
  from a b c q d(1,2,5) rep_zero(2) [of 53] show ?thesis
    by simp
qed

text \<open>
  The claim as stated, \<open>A * frac (t / P)\<close> for every real \<open>t\<close> and \<open>0\<close> at every
  \<open>t = k * P\<close>, fails for Python numbers: at \<open>t = 4\<close>, \<open>A = 1\<close>, \<open>P = 3\<close> the quotient is
  rounded before its fractional part is taken, and the result is not \<open>1/3\<close>; at
  \<open>t = 10 ^ 310\<close>, \<open>P = 2\<close> the division raises \<open>OverflowError\<close>.
\<close>

theorem sawtoothw_formula_counterexample:
  "sawtoothw double (mpf 53) (mp (mpf 53)) 4 1 3 = Inr (1501199875790165 / 2 ^ 52) \<and>
   (1501199875790165 / 2 ^ 52 :: real) \<noteq> 1 * frac (4 / 3) \<and>
   sawtoothw double (mpf 53) (mp (mpf 53)) (of_int (5 * 10 ^ 309) * 2) 1 2 = Inl OverflowError"
proof -
  have rd_4_3: "round_double (4 / 3) = 6004799503160661 / 4503599627370496"
    by (simp add: round_double_at [of 0] rne_def)
  have lt: "\<bar>6004799503160661 / 4503599627370496 :: real\<bar> < 2 ^ 1024"
    by simp
  have rd_f: "round_prec 53 (1501199875790165 / 4503599627370496) =
              1501199875790165 / 4503599627370496"
    by (simp add: round_prec_53_at [of "- 2"] rne_def)
  have a: "sawtoothw double (mpf 53) (mp (mpf 53)) 4 1 3 = Inr (1501199875790165 / 2 ^ 52)"
    using lt
    by (simp add: sawtoothw_def py_div_def py_mul_def mp_def double_def mpf_def rd_4_3 rd_f)
  have "frac (4 / 3 :: real) = 1 / 3"
    by (simp add: frac_def)
  then have b: "(1501199875790165 / 2 ^ 52 :: real) \<noteq> 1 * frac (4 / 3)"
    by simp
  have "ovf double (5 * 10 ^ 309)"
    by (rule ovf_double_large) simp
  then have c: "sawtoothw double (mpf 53) (mp (mpf 53)) (of_int (5 * 10 ^ 309) * 2) 1 2 =
                Inl OverflowError"
    by (simp add: sawtoothw_def py_div_def)
  from a b c show ?thesis by blast
qed

subsection \<open>Periodicity\<close>


lemma trianglew_rounded:
  assumes "P \<noteq> 0" "\<not> ovf h (t / P)"
  shows "trianglew h f (mp f) t A P =
         Inr (rnd f (rnd h (2 * A) *
                rnd f (1 / 2 - \<bar>rnd f (1 - rnd f (2 *
                  rnd f (frac (rnd h (rnd h (t / P) + 1 / 4)))))\<bar>)))"
  using assms
  by (simp add: trianglew_def py_div_def py_mul_def py_sub_def py_add_def mp_def frac_def)







subsection \<open>The square wave\<close>









subsection \<open>Half-period antisymmetry of the square wave\<close>





subsection \<open>The unit triangle pulse\<close>

text \<open>
  C4, as amended: for every \<open>t\<close> with \<open>\<bar>t\<bar> \<ge> 1\<close>, the boundary points \<open>t = 1\<close> and \<open>t = -1\<close>
  included, and every amplitude \<open>A\<close>, \<open>unit_triangle\<close> returns exactly \<open>0\<close>. For numbers
  \<open>t\<close> with \<open>\<bar>t\<bar> < 1\<close> and \<open>A\<close> of the format of the arguments it returns the rounded
  product of \<open>A\<close> and the rounded difference \<open>1 - \<bar>t\<bar>\<close>, which is \<open>A * (1 - \<bar>t\<bar>)\<close> when
  the difference and the product are computed without rounding.
\<close>

theorem unit_triangle_cases:
  "(\<bar>t\<bar> \<ge> 1 \<longrightarrow> unit_triangle h t A = 0) \<and>
   (\<bar>t\<bar> < 1 \<and> rep h t \<and> rep h A \<longrightarrow>
      unit_triangle h t A = rnd h (A * rnd h (1 - \<bar>t\<bar>))) \<and>
   (\<bar>t\<bar> < 1 \<and> rep h t \<and> rep h A \<and> rep h (1 - \<bar>t\<bar>) \<and> rep h (A * (1 - \<bar>t\<bar>)) \<longrightarrow>
      unit_triangle h t A = A * (1 - \<bar>t\<bar>)) \<and>
   unit_triangle h 1 A = 0 \<and> unit_triangle h (- 1) A = 0"
  by (auto simp: unit_triangle_def py_mul_def py_add_def rep_def)

text \<open>
  The pulse of amplitude \<open>3\<close> at \<open>t = 2\<close> and at \<open>t = 1/2\<close>, with Python's floats.
\<close>

theorem unit_triangle_cases_witness:
  "\<bar>2 :: real\<bar> \<ge> 1 \<and> unit_triangle double 2 3 = 0 \<and>
   \<bar>1 / 2 :: real\<bar> < 1 \<and> rep double (1 / 2) \<and> rep double 3 \<and>
   rep double (1 - \<bar>1 / 2\<bar>) \<and> rep double (3 * (1 - \<bar>1 / 2\<bar>)) \<and>
   unit_triangle double (1 / 2) 3 = rnd double (3 * rnd double (1 - \<bar>1 / 2\<bar>)) \<and>
   unit_triangle double (1 / 2) 3 = 3 / 2"
proof -
  note d = rep_double_consts
  have r: "rep double (1 - \<bar>1 / 2\<bar>)" "rep double (3 * (1 - \<bar>1 / 2\<bar>))"
    using d by simp_all
  have a: "unit_triangle double 2 3 = 0"
    using unit_triangle_cases [of 2 double 3, THEN conjunct1] by simp
  have b: "unit_triangle double (1 / 2) 3 = rnd double (3 * rnd double (1 - \<bar>1 / 2\<bar>))"
    using unit_triangle_cases [of "1 / 2" double 3, THEN conjunct2, THEN conjunct1] d
    by simp
  have c: "unit_triangle double (1 / 2) 3 = 3 / 2"
    using unit_triangle_cases [of "1 / 2" double 3, THEN conjunct2, THEN conjunct2,
        THEN conjunct1] r d
    by simp
  from a b c r d show ?thesis
    by simp
qed

text \<open>
  The claim as stated, \<open>A * (1 - \<bar>t\<bar>)\<close> for every real \<open>t\<close> with \<open>\<bar>t\<bar> < 1\<close>, fails for
  Python's floats: with \<open>t\<close> the float \<open>0.1\<close> (that is \<open>3602879701896397 / 2 ^ 55\<close>) and
  \<open>A = 3\<close> the difference and the product are rounded, and the result is the float \<open>2.7\<close>.
\<close>

theorem unit_triangle_cases_counterexample:
  "\<bar>3602879701896397 / 2 ^ 55 :: real\<bar> < 1 \<and>
   unit_triangle double (3602879701896397 / 2 ^ 55) 3 = 3039929748475085 / 2 ^ 50 \<and>
   (3039929748475085 / 2 ^ 50 :: real) \<noteq> 3 * (1 - \<bar>3602879701896397 / 2 ^ 55\<bar>)"
proof -
  have rd_a: "round_double (32425917317067571 / 36028797018963968) =
              8106479329266893 / 9007199254740992"
    by (simp add: round_double_at [of "- 1"] rne_def)
  have rd_b: "round_double (24319437987800679 / 9007199254740992) =
              3039929748475085 / 1125899906842624"
    by (simp add: round_double_at [of 1] rne_def)
  have "unit_triangle double (3602879701896397 / 2 ^ 55) 3 = 3039929748475085 / 2 ^ 50"
    by (simp add: unit_triangle_def py_mul_def py_add_def double_def rd_a rd_b)
  then show ?thesis
    by simp
qed

subsection \<open>The sigmoid\<close>

lemma round_prec_powi:
  assumes "0 < p"
  shows "round_prec p (2 powi e) = 2 powi e"
proof -
  have "(2 :: real) powi e < 2 powi (e + 1)"
    by (intro power_int_strict_increasing) simp_all
  then have "round_prec p (2 powi e) = round_to (e - (int p - 1)) (2 powi e)"
    using round_prec_at [of e "2 powi e" p] by (simp add: round_to_def)
  then show ?thesis
    using assms by (simp add: round_to_powi)
qed

lemma round_prec_one: "0 < p \<Longrightarrow> round_prec p 1 = 1"
  using round_prec_powi [of p 0] by simp

lemma round_prec_two: "0 < p \<Longrightarrow> round_prec p 2 = 2"
  using round_prec_powi [of p 1] by simp

lemma round_prec_zero: "round_prec p 0 = 0"
  by (simp add: round_prec_def)

lemma sigmoid_divisor:
  assumes "0 < p"
  shows "1 \<le> round_prec p (1 + round_prec p (exp (- t)))"
proof -
  have "0 \<le> round_prec p (exp (- t))"
    by (intro round_prec_nonneg) simp
  then have "round_prec p 1 \<le> round_prec p (1 + round_prec p (exp (- t)))"
    using assms by (intro round_prec_mono) simp_all
  then show ?thesis
    using assms by (simp add: round_prec_one)
qed

lemma exp_40_large: "2 ^ 55 \<le> exp (40 :: real)"
proof -
  have "(13 / 8 :: real) \<le> exp (1 / 2)"
    using exp_lower_Taylor_quadratic [of "1 / 2 :: real"] by (simp add: power2_eq_square)
  then have "(13 / 8 :: real) ^ 80 \<le> exp (1 / 2) ^ 80"
    by (intro power_mono) simp_all
  also have "\<dots> = exp 40"
    using exp_of_nat_mult [of 80 "1 / 2 :: real"] by simp
  finally have "(13 / 8 :: real) ^ 80 \<le> exp 40" .
  moreover have "(2 :: real) ^ 55 \<le> (13 / 8) ^ 80"
    by (simp add: power_divide)
  ultimately show ?thesis
    by linarith
qed

lemma exp_minus_40_small: "exp (- 40 :: real) \<le> 1 / 2 ^ 55"
proof -
  have "exp (- 40 :: real) = 1 / exp 40"
    by (simp add: exp_minus inverse_eq_divide)
  also have "\<dots> \<le> 1 / 2 ^ 55"
    using exp_40_large by (intro divide_left_mono) simp_all
  finally show ?thesis .
qed

lemma sigmoid_divisor_40: "round_prec 53 (1 + round_prec 53 (exp (- 40))) = 1"
proof -
  have r55: "round_prec 53 (1 / 2 ^ 55) = 1 / 2 ^ 55"
    using round_prec_powi [of 53 "- 55"] by (simp add: power_int_minus inverse_eq_divide)
  have "round_prec 53 (exp (- 40)) \<le> round_prec 53 (1 / 2 ^ 55)"
    using exp_minus_40_small by (intro round_prec_mono) simp_all
  then have "round_prec 53 (1 + round_prec 53 (exp (- 40))) \<le> round_prec 53 (1 + 1 / 2 ^ 55)"
    unfolding r55 by (intro round_prec_mono) simp_all
  also have "round_prec 53 (1 + 1 / 2 ^ 55) = 1"
    by (simp add: round_prec_53_at [of 0] rne_def)
  finally show ?thesis
    using sigmoid_divisor [of 53 40] by simp
qed

text \<open>
  C5, as amended: for every \<open>t\<close> and amplitude \<open>A\<close>, in a context with a working precision
  of \<open>p > 0\<close> bits, \<open>sigmoidw\<close> raises no exception and returns the quotient, rounded to
  the working precision, of \<open>A\<close> by the rounded sum of \<open>1\<close> and the context's \<open>exp (-t)\<close>;
  the divisor is at least \<open>1\<close>. At \<open>t = 0\<close> the value is \<open>A / 2\<close> exactly when \<open>A / 2\<close> is a
  number of the working precision.
\<close>

theorem sigmoidw_formula:
  assumes "0 < p"
  shows "sigmoidw (mpf p) (mp (mpf p)) t A =
           Inr (rnd (mpf p) (A / rnd (mpf p) (1 + rnd (mpf p) (exp (- t))))) \<and>
         1 \<le> rnd (mpf p) (1 + rnd (mpf p) (exp (- t))) \<and>
         (rep (mpf p) (A / 2) \<longrightarrow> sigmoidw (mpf p) (mp (mpf p)) 0 A = Inr (A / 2))"
proof (intro conjI impI)
  have d: "1 \<le> round_prec p (1 + round_prec p (exp (- t)))"
    using assms by (rule sigmoid_divisor)
  then show "1 \<le> rnd (mpf p) (1 + rnd (mpf p) (exp (- t)))"
    by (simp add: mpf_def)
  from d have "round_prec p (1 + round_prec p (exp (- t))) \<noteq> 0"
    by linarith
  then show "sigmoidw (mpf p) (mp (mpf p)) t A =
             Inr (rnd (mpf p) (A / rnd (mpf p) (1 + rnd (mpf p) (exp (- t)))))"
    by (simp add: sigmoidw_def py_div_def py_add_def mp_def mpf_def)
next
  assume "rep (mpf p) (A / 2)"
  then show "sigmoidw (mpf p) (mp (mpf p)) 0 A = Inr (A / 2)"
    using assms
    by (simp add: sigmoidw_def py_div_def py_add_def mp_def mpf_def rep_def round_prec_one
        round_prec_two)
qed

text \<open>
  The sigmoid of amplitude \<open>3\<close> at \<open>t = 0\<close>, in the context at \<open>53\<close> bits.
\<close>

theorem sigmoidw_formula_witness:
  "(0 :: nat) < 53 \<and> rep (mpf 53) (3 / 2) \<and> sigmoidw (mpf 53) (mp (mpf 53)) 0 3 = Inr (3 / 2)"
proof -
  have p: "(0 :: nat) < 53"
    by simp
  note m = rep_mpf_consts
  have "sigmoidw (mpf 53) (mp (mpf 53)) 0 3 = Inr (3 / 2)"
    using sigmoidw_formula [OF p, of 0 3, THEN conjunct2, THEN conjunct2] m(8) by simp
  with m(8) show ?thesis
    by simp
qed

text \<open>
  The claim as stated, \<open>A / (1 + exp (-t))\<close> for every real \<open>t\<close>, fails in the context at
  \<open>53\<close> bits: at \<open>t = 40\<close> the sum \<open>1 + exp (-40)\<close> is rounded to \<open>1\<close>, and with \<open>A = 1\<close> the
  function returns exactly \<open>1\<close>, which \<open>1 / (1 + exp (-40))\<close> is not.
\<close>

theorem sigmoidw_formula_counterexample:
  "sigmoidw (mpf 53) (mp (mpf 53)) 40 1 = Inr 1 \<and> (1 :: real) \<noteq> 1 / (1 + exp (- 40))"
proof -
  have "sigmoidw (mpf 53) (mp (mpf 53)) 40 1 = Inr 1"
    by (simp add: sigmoidw_def py_div_def py_add_def mp_def mpf_def sigmoid_divisor_40
        round_prec_one)
  moreover have "(1 :: real) < 1 + exp (- 40)"
    by simp
  then have "(1 :: real) \<noteq> 1 / (1 + exp (- 40))"
    by (simp add: field_simps)
  ultimately show ?thesis
    by simp
qed

subsection \<open>The triangle wave\<close>


lemma rnd_double_consts:
  "rnd double 0 = 0" "rnd double 1 = 1" "rnd double (1 / 2) = 1 / 2"
  "rnd double (1 / 4) = 1 / 4" "rnd double (3 / 4) = 3 / 4" "rnd double 2 = 2"
  "\<not> ovf double 0" "\<not> ovf double (1 / 4)" "\<not> ovf double (1 / 2)" "\<not> ovf double (3 / 4)"
  using rep_double_consts rep_zero(1) by (simp_all add: rep_def)




lemma frac_ctx_bounds:
  assumes "0 < p"
  shows "0 \<le> frac_ctx (mp (mpf p)) x" and "frac_ctx (mp (mpf p)) x \<le> 1"
proof -
  have "0 \<le> x - of_int \<lfloor>x\<rfloor>" "x - of_int \<lfloor>x\<rfloor> \<le> 1"
    by linarith+
  then have "round_prec p 0 \<le> round_prec p (x - of_int \<lfloor>x\<rfloor>)"
    "round_prec p (x - of_int \<lfloor>x\<rfloor>) \<le> round_prec p 1"
    using assms by (simp_all only: round_prec_mono)
  then show "0 \<le> frac_ctx (mp (mpf p)) x" and "frac_ctx (mp (mpf p)) x \<le> 1"
    using assms by (simp_all add: mp_def mpf_def round_prec_zero round_prec_one)
qed







subsection \<open>Range bounds\<close>

lemma round_prec_between:
  assumes "0 < p" "a \<le> x" "x \<le> b" "round_prec p a = a" "round_prec p b = b"
  shows "a \<le> round_prec p x" and "round_prec p x \<le> b"
  using round_prec_mono [OF assms(1,2)] round_prec_mono [OF assms(1,3)] assms(4,5)
  by simp_all

lemma round_double_between:
  assumes "a \<le> x" "x \<le> b" "round_double a = a" "round_double b = b"
  shows "a \<le> round_double x" and "round_double x \<le> b"
  using round_double_mono [OF assms(1)] round_double_mono [OF assms(2)] assms(3,4)
  by simp_all

lemma scaled_bounds:
  fixes A c :: real
  assumes "0 \<le> c" "c \<le> 1"
  shows "min 0 A \<le> A * c" and "A * c \<le> max 0 A"
proof -
  show "min 0 A \<le> A * c"
  proof (cases "0 \<le> A")
    case True
    then have "0 \<le> A * c"
      using assms(1) by simp
    with True show ?thesis
      by simp
  next
    case False
    then have "A * 1 \<le> A * c"
      using assms(2) by (intro mult_left_mono_neg) simp_all
    with False show ?thesis
      by simp
  qed
  show "A * c \<le> max 0 A"
  proof (cases "0 \<le> A")
    case True
    then have "A * c \<le> A * 1"
      using assms(2) by (intro mult_left_mono) simp_all
    with True show ?thesis
      by simp
  next
    case False
    then have "A * c \<le> 0"
      using assms(1) by (simp add: mult_le_0_iff)
    with False show ?thesis
      by simp
  qed
qed

lemma round_prec_scaled:
  assumes "0 < p" "round_prec p A = A" "0 \<le> c" "c \<le> 1"
  shows "min 0 A \<le> round_prec p (A * c)" and "round_prec p (A * c) \<le> max 0 A"
proof -
  have m: "round_prec p (min 0 A) = min 0 A" "round_prec p (max 0 A) = max 0 A"
    using assms(2) by (simp_all add: min_def max_def round_prec_zero)
  from round_prec_between [OF assms(1) scaled_bounds [OF assms(3,4), of A] m]
  show "min 0 A \<le> round_prec p (A * c)" and "round_prec p (A * c) \<le> max 0 A"
    by simp_all
qed

lemma round_double_scaled:
  assumes "round_double A = A" "0 \<le> c" "c \<le> 1"
  shows "min 0 A \<le> round_double (A * c)" and "round_double (A * c) \<le> max 0 A"
proof -
  have z: "round_double 0 = 0"
    by (simp add: round_double_def)
  have m: "round_double (min 0 A) = min 0 A" "round_double (max 0 A) = max 0 A"
    using assms(1) z by (simp_all add: min_def max_def)
  from round_double_between [OF scaled_bounds [OF assms(2,3), of A] m]
  show "min 0 A \<le> round_double (A * c)" and "round_double (A * c) \<le> max 0 A"
    by simp_all
qed

lemma round_prec_frac:
  assumes "0 < p"
  shows "0 \<le> round_prec p (frac x)" and "round_prec p (frac x) \<le> 1"
  using frac_ctx_bounds [OF assms, of x] by (simp_all add: mp_def mpf_def frac_def)

lemma round_prec_nonzero:
  assumes "0 < p" "x \<noteq> 0"
  shows "round_prec p x \<noteq> 0"
proof -
  have pos: "0 < round_prec p y" if "0 < y" for y
  proof -
    have "round_prec p (2 powi \<lfloor>log 2 y\<rfloor>) \<le> round_prec p y"
      using powi_floor_log(1) [OF that] assms(1) by (intro round_prec_mono)
    moreover have "(0 :: real) < 2 powi \<lfloor>log 2 y\<rfloor>"
      by simp
    ultimately show ?thesis
      unfolding round_prec_powi [OF assms(1)] by linarith
  qed
  show ?thesis
  proof (cases "0 < x")
    case True
    then show ?thesis
      using pos [of x] by simp
  next
    case False
    then have "0 < - x"
      using assms(2) by simp
    then show ?thesis
      using pos [of "- x"] by (simp add: round_prec_minus)
  qed
qed

lemma squarew_range:
  assumes "P \<noteq> 0" "\<not> ovf h (rnd h (2 * t) / P)" "rep f A" "rep f (- A)"
  shows "squarew h f (mp f) t A P = Inr A \<or> squarew h f (mp f) t A P = Inr (- A)"
  using assms by (simp add: squarew_def py_div_def py_mul_def mp_def py_pow_neg_one rep_def)

lemma sawtoothw_range:
  assumes "P \<noteq> 0" "\<not> ovf h (t / P)" "0 < p" "rep (mpf p) A"
  shows "\<exists>v. sawtoothw h (mpf p) (mp (mpf p)) t A P = Inr v \<and> min 0 A \<le> v \<and> v \<le> max 0 A"
proof -
  have a: "round_prec p A = A"
    using assms(4) by (simp add: rep_def mpf_def)
  have "sawtoothw h (mpf p) (mp (mpf p)) t A P =
        Inr (round_prec p (A * round_prec p (frac (rnd h (t / P)))))"
    using sawtoothw_rounded [OF assms(1,2), of "mpf p" A] by (simp add: mpf_def)
  with round_prec_scaled [OF assms(3) a round_prec_frac [OF assms(3)]] show ?thesis
    by blast
qed

lemma triangle_core:
  assumes "0 < p"
  shows "\<bar>round_prec p (1 / 2 - \<bar>round_prec p (1 - round_prec p (2 * round_prec p (frac x)))\<bar>)\<bar>
         \<le> 1 / 2"
proof -
  have c: "round_prec p 1 = 1" "round_prec p 2 = 2" "round_prec p 0 = 0"
    "round_prec p (- 1) = - 1" "round_prec p (1 / 2) = 1 / 2"
    "round_prec p (- (1 / 2)) = - (1 / 2)"
    using assms round_prec_powi [OF assms, of "- 1"]
    by (simp_all add: round_prec_one round_prec_two round_prec_zero round_prec_minus)
  define u where "u = round_prec p (frac x)"
  define v where "v = round_prec p (2 * u)"
  define w where "w = round_prec p (1 - v)"
  have u: "0 \<le> u" "u \<le> 1"
    unfolding u_def using round_prec_frac [OF assms] by simp_all
  have v: "0 \<le> v" "v \<le> 2"
    unfolding v_def using round_prec_between [OF assms, of 0 "2 * u" 2] u c by simp_all
  have w: "- 1 \<le> w" "w \<le> 1"
    unfolding w_def using round_prec_between [OF assms, of "- 1" "1 - v" 1] v c by simp_all
  then have "- (1 / 2) \<le> 1 / 2 - \<bar>w\<bar>" "1 / 2 - \<bar>w\<bar> \<le> 1 / 2"
    by simp_all
  from round_prec_between [OF assms this c(6,5)]
  have "\<bar>round_prec p (1 / 2 - \<bar>w\<bar>)\<bar> \<le> 1 / 2"
    by simp
  then show ?thesis
    unfolding w_def v_def u_def .
qed

lemma trianglew_range:
  assumes "P \<noteq> 0" "\<not> ovf h (t / P)" "0 < p" "rep (mpf p) A" "rep (mpf p) (- A)" "rep h (2 * A)"
  shows "\<exists>v. trianglew h (mpf p) (mp (mpf p)) t A P = Inr v \<and> - \<bar>A\<bar> \<le> v \<and> v \<le> \<bar>A\<bar>"
proof -
  define g where "g = round_prec p (1 / 2 -
    \<bar>round_prec p (1 - round_prec p (2 * round_prec p (frac (rnd h (rnd h (t / P) + 1 / 4)))))\<bar>)"
  have g: "\<bar>g\<bar> \<le> 1 / 2"
    unfolding g_def using assms(3) by (rule triangle_core)
  have a: "round_prec p \<bar>A\<bar> = \<bar>A\<bar>" "round_prec p (- \<bar>A\<bar>) = - \<bar>A\<bar>"
    using assms(4,5) by (simp_all add: rep_def mpf_def abs_if)
  have "\<bar>2 * A * g\<bar> = \<bar>A\<bar> * (2 * \<bar>g\<bar>)"
    by (simp add: abs_mult)
  also have "\<dots> \<le> \<bar>A\<bar> * 1"
    using g by (intro mult_left_mono) simp_all
  finally have "- \<bar>A\<bar> \<le> 2 * A * g" "2 * A * g \<le> \<bar>A\<bar>"
    by simp_all
  from round_prec_between [OF assms(3) this a(2,1)]
  have b: "- \<bar>A\<bar> \<le> round_prec p (2 * A * g)" "round_prec p (2 * A * g) \<le> \<bar>A\<bar>"
    by simp_all
  have "trianglew h (mpf p) (mp (mpf p)) t A P = Inr (round_prec p (2 * A * g))"
    using trianglew_rounded [OF assms(1,2), of "mpf p" A] assms(6)
    by (simp add: mpf_def rep_def g_def)
  with b show ?thesis
    by blast
qed

lemma unit_triangle_range:
  assumes "rep double A"
  shows "min 0 A \<le> unit_triangle double t A" and "unit_triangle double t A \<le> max 0 A"
proof -
  have a: "round_double A = A"
    using assms by (simp add: rep_def double_def)
  have c: "round_double 0 = 0" "round_double 1 = 1"
    using rnd_double_consts(1,2) by (simp_all add: double_def)
  have r: "0 \<le> round_double (1 - \<bar>t\<bar>)" "round_double (1 - \<bar>t\<bar>) \<le> 1" if "\<bar>t\<bar> < 1"
    using round_double_between [of 0 "1 - \<bar>t\<bar>" 1] that c by simp_all
  have v: "unit_triangle double t A =
           (if \<bar>t\<bar> < 1 then round_double (A * round_double (1 - \<bar>t\<bar>)) else 0)"
    by (auto simp: unit_triangle_def py_mul_def py_add_def double_def)
  show "min 0 A \<le> unit_triangle double t A"
    unfolding v using round_double_scaled(1) [OF a r] by simp
  show "unit_triangle double t A \<le> max 0 A"
    unfolding v using round_double_scaled(2) [OF a r] by simp
qed

lemma sigmoidw_range:
  assumes "0 < p" "rep (mpf p) A"
  shows "\<exists>v. sigmoidw (mpf p) (mp (mpf p)) t A = Inr v \<and> min 0 A \<le> v \<and> v \<le> max 0 A \<and>
             (A \<noteq> 0 \<longrightarrow> v \<noteq> 0)"
proof -
  define d where "d = round_prec p (1 + round_prec p (exp (- t)))"
  have d: "1 \<le> d"
    unfolding d_def using assms(1) by (rule sigmoid_divisor)
  have a: "round_prec p A = A"
    using assms(2) by (simp add: rep_def mpf_def)
  have c: "0 \<le> 1 / d" "1 / d \<le> 1"
    using d by simp_all
  have e: "sigmoidw (mpf p) (mp (mpf p)) t A = Inr (round_prec p (A * (1 / d)))"
    using d by (simp add: sigmoidw_def py_div_def py_add_def mp_def mpf_def d_def)
  have "A * (1 / d) \<noteq> 0" if "A \<noteq> 0"
    using that d by simp
  then have n: "round_prec p (A * (1 / d)) \<noteq> 0" if "A \<noteq> 0"
    using that assms(1) by (intro round_prec_nonzero)
  from round_prec_scaled [OF assms(1) a c] e n show ?thesis
    by blast
qed


text \<open>
  C8, as amended: in a context of \<open>p > 0\<close> bits, for an amplitude \<open>A\<close> such that \<open>A\<close> and
  \<open>- A\<close> are numbers of the working precision, and numbers \<open>t\<close> and \<open>P \<noteq> 0\<close> of the format
  of the arguments whose products and quotients are in range: \<open>squarew\<close> returns \<open>A\<close> or
  \<open>- A\<close>; \<open>trianglew\<close> returns a value between \<open>- \<bar>A\<bar>\<close> and \<open>\<bar>A\<bar>\<close> (for \<open>2 * A\<close> a number of
  the format of the arguments); \<open>sawtoothw\<close> returns a value in the closed interval between
  \<open>0\<close> and \<open>A\<close>; \<open>unit_triangle\<close>, with Python's floats, returns exactly \<open>0\<close> for
  \<open>\<bar>t\<bar> \<ge> 1\<close> and a value in the closed interval between \<open>0\<close> and \<open>A\<close> otherwise;
  \<open>sigmoidw\<close> returns, for every \<open>t\<close>, a value in the closed interval between \<open>0\<close> and
  \<open>A\<close>, which is not \<open>0\<close> unless \<open>A\<close> is. The interval between \<open>0\<close> and \<open>A\<close> is \<open>[0, A]\<close>
  for \<open>A \<ge> 0\<close> and \<open>[A, 0]\<close> for \<open>A \<le> 0\<close>; its end \<open>A\<close> can be reached.
\<close>

theorem range_bounds:
  assumes "0 < p" "rep (mpf p) A" "rep (mpf p) (- A)"
  shows "(P \<noteq> 0 \<and> rep h t \<and> rep h P \<and> \<not> ovf h (2 * t) \<and> \<not> ovf h (rnd h (2 * t) / P) \<longrightarrow>
            squarew h (mpf p) (mp (mpf p)) t A P = Inr A \<or>
            squarew h (mpf p) (mp (mpf p)) t A P = Inr (- A)) \<and>
         (P \<noteq> 0 \<and> rep h t \<and> rep h P \<and> \<not> ovf h (t / P) \<and> rep h (2 * A) \<longrightarrow>
            (\<exists>v. trianglew h (mpf p) (mp (mpf p)) t A P = Inr v \<and> - \<bar>A\<bar> \<le> v \<and> v \<le> \<bar>A\<bar>)) \<and>
         (P \<noteq> 0 \<and> rep h t \<and> rep h P \<and> \<not> ovf h (t / P) \<longrightarrow>
            (\<exists>v. sawtoothw h (mpf p) (mp (mpf p)) t A P = Inr v \<and>
                 min 0 A \<le> v \<and> v \<le> max 0 A)) \<and>
         (\<bar>t\<bar> \<ge> 1 \<longrightarrow> unit_triangle double t A = 0) \<and>
         (rep double t \<and> rep double A \<longrightarrow>
            min 0 A \<le> unit_triangle double t A \<and> unit_triangle double t A \<le> max 0 A) \<and>
         (\<exists>v. sigmoidw (mpf p) (mp (mpf p)) t A = Inr v \<and> min 0 A \<le> v \<and> v \<le> max 0 A \<and>
              (A \<noteq> 0 \<longrightarrow> v \<noteq> 0))"
proof (intro conjI impI)
  assume "P \<noteq> 0 \<and> rep h t \<and> rep h P \<and> \<not> ovf h (2 * t) \<and> \<not> ovf h (rnd h (2 * t) / P)"
  then have "P \<noteq> 0" "\<not> ovf h (rnd h (2 * t) / P)"
    by blast+
  then show "squarew h (mpf p) (mp (mpf p)) t A P = Inr A \<or>
             squarew h (mpf p) (mp (mpf p)) t A P = Inr (- A)"
    using assms(2,3) by (rule squarew_range)
next
  assume "P \<noteq> 0 \<and> rep h t \<and> rep h P \<and> \<not> ovf h (t / P) \<and> rep h (2 * A)"
  then have "P \<noteq> 0" "\<not> ovf h (t / P)" "rep h (2 * A)"
    by blast+
  from trianglew_range [OF this(1,2) assms this(3)]
  show "\<exists>v. trianglew h (mpf p) (mp (mpf p)) t A P = Inr v \<and> - \<bar>A\<bar> \<le> v \<and> v \<le> \<bar>A\<bar>" .
next
  assume "P \<noteq> 0 \<and> rep h t \<and> rep h P \<and> \<not> ovf h (t / P)"
  then have "P \<noteq> 0" "\<not> ovf h (t / P)"
    by blast+
  from sawtoothw_range [OF this assms(1,2)]
  show "\<exists>v. sawtoothw h (mpf p) (mp (mpf p)) t A P = Inr v \<and> min 0 A \<le> v \<and> v \<le> max 0 A" .
next
  assume "\<bar>t\<bar> \<ge> 1"
  then show "unit_triangle double t A = 0"
    by (auto simp: unit_triangle_def)
next
  assume "rep double t \<and> rep double A"
  then have a: "rep double A"
    by blast
  show "min 0 A \<le> unit_triangle double t A"
    using a by (rule unit_triangle_range(1))
  show "unit_triangle double t A \<le> max 0 A"
    using a by (rule unit_triangle_range(2))
next
  show "\<exists>v. sigmoidw (mpf p) (mp (mpf p)) t A = Inr v \<and> min 0 A \<le> v \<and> v \<le> max 0 A \<and>
            (A \<noteq> 0 \<longrightarrow> v \<noteq> 0)"
    using assms(1,2) by (rule sigmoidw_range)
qed

text \<open>
  The five functions at \<open>t = 1/2\<close> with amplitude \<open>1\<close> and period \<open>2\<close>, and the pulse at
  \<open>t = 2\<close>, with Python's floats and the context at \<open>53\<close> bits.
\<close>

theorem range_bounds_witness:
  "(0 :: nat) < 53 \<and> rep (mpf 53) 1 \<and> rep (mpf 53) (- 1) \<and> (2 :: real) \<noteq> 0 \<and>
   rep double (1 / 2) \<and> rep double 2 \<and> \<not> ovf double (2 * (1 / 2)) \<and>
   \<not> ovf double (rnd double (2 * (1 / 2)) / 2) \<and> \<not> ovf double (1 / 2 / 2) \<and>
   rep double (2 * 1) \<and> rep double 1 \<and> \<bar>2 :: real\<bar> \<ge> 1 \<and>
   (squarew double (mpf 53) (mp (mpf 53)) (1 / 2) 1 2 = Inr 1 \<or>
    squarew double (mpf 53) (mp (mpf 53)) (1 / 2) 1 2 = Inr (- 1)) \<and>
   (\<exists>v. trianglew double (mpf 53) (mp (mpf 53)) (1 / 2) 1 2 = Inr v \<and> - \<bar>1\<bar> \<le> v \<and> v \<le> \<bar>1\<bar>) \<and>
   (\<exists>v. sawtoothw double (mpf 53) (mp (mpf 53)) (1 / 2) 1 2 = Inr v \<and>
        min 0 1 \<le> v \<and> v \<le> max 0 1) \<and>
   unit_triangle double 2 1 = 0 \<and>
   min 0 1 \<le> unit_triangle double (1 / 2) 1 \<and> unit_triangle double (1 / 2) 1 \<le> max 0 1 \<and>
   (\<exists>v. sigmoidw (mpf 53) (mp (mpf 53)) (1 / 2) 1 = Inr v \<and> min 0 1 \<le> v \<and> v \<le> max 0 1 \<and>
        ((1 :: real) \<noteq> 0 \<longrightarrow> v \<noteq> 0))"
proof -
  note d = rep_double_consts and m = rep_mpf_consts
  have p: "(0 :: nat) < 53"
    by simp
  have o: "\<not> ovf double (2 * (1 / 2))" "\<not> ovf double (rnd double (2 * (1 / 2)) / 2)"
    "\<not> ovf double (1 / 2 / 2)"
    using d(1,5,6) by (simp_all add: rep_def)
  have h: "(2 :: real) \<noteq> 0 \<and> rep double (1 / 2) \<and> rep double 2 \<and> \<not> ovf double (2 * (1 / 2)) \<and>
           \<not> ovf double (rnd double (2 * (1 / 2)) / 2)"
    "(2 :: real) \<noteq> 0 \<and> rep double (1 / 2) \<and> rep double 2 \<and> \<not> ovf double (1 / 2 / 2) \<and>
     rep double (2 * 1)"
    "(2 :: real) \<noteq> 0 \<and> rep double (1 / 2) \<and> rep double 2 \<and> \<not> ovf double (1 / 2 / 2)"
    "rep double (1 / 2) \<and> rep double 1"
    using o d(1,2,5) by simp_all
  note r = range_bounds [OF p m(1) m(10), where h = double and t = "1 / 2" and P = 2]
  note r2 = range_bounds [OF p m(1) m(10), where h = double and t = 2 and P = 2]
  have a: "squarew double (mpf 53) (mp (mpf 53)) (1 / 2) 1 2 = Inr 1 \<or>
           squarew double (mpf 53) (mp (mpf 53)) (1 / 2) 1 2 = Inr (- 1)"
    using r [THEN conjunct1] h(1) by blast
  have b: "\<exists>v. trianglew double (mpf 53) (mp (mpf 53)) (1 / 2) 1 2 = Inr v \<and>
               - \<bar>1\<bar> \<le> v \<and> v \<le> \<bar>1\<bar>"
    using r [THEN conjunct2, THEN conjunct1] h(2) by blast
  have c: "\<exists>v. sawtoothw double (mpf 53) (mp (mpf 53)) (1 / 2) 1 2 = Inr v \<and>
               min 0 1 \<le> v \<and> v \<le> max 0 1"
    using r [THEN conjunct2, THEN conjunct2, THEN conjunct1] h(3) by blast
  have e: "unit_triangle double 2 1 = 0"
    using r2 [THEN conjunct2, THEN conjunct2, THEN conjunct2, THEN conjunct1] by simp
  have g: "min 0 1 \<le> unit_triangle double (1 / 2) 1 \<and> unit_triangle double (1 / 2) 1 \<le> max 0 1"
    using r [THEN conjunct2, THEN conjunct2, THEN conjunct2, THEN conjunct2, THEN conjunct1] h(4)
    by blast
  have i: "\<exists>v. sigmoidw (mpf 53) (mp (mpf 53)) (1 / 2) 1 = Inr v \<and> min 0 1 \<le> v \<and> v \<le> max 0 1 \<and>
               ((1 :: real) \<noteq> 0 \<longrightarrow> v \<noteq> 0)"
    using r [THEN conjunct2, THEN conjunct2, THEN conjunct2, THEN conjunct2, THEN conjunct2] .
  have j: "(0 :: nat) < 53 \<and> rep (mpf 53) 1 \<and> rep (mpf 53) (- 1) \<and> (2 :: real) \<noteq> 0 \<and>
           rep double (1 / 2) \<and> rep double 2 \<and> \<not> ovf double (2 * (1 / 2)) \<and>
           \<not> ovf double (rnd double (2 * (1 / 2)) / 2) \<and> \<not> ovf double (1 / 2 / 2) \<and>
           rep double (2 * 1) \<and> rep double 1 \<and> \<bar>2 :: real\<bar> \<ge> 1"
    using o d(1,2,5) m(1,10) by simp
  from j a b c e g i show ?thesis
    by blast
qed

text \<open>
  The claim as stated fails for Python numbers. The sawtooth reaches the excluded end of
  \<open>[0, A)\<close>: at \<open>t = - 1\<close>, \<open>A = 1\<close>, \<open>P = 2 ^ 60\<close> the fractional part \<open>1 - 1 / 2 ^ 60\<close> is
  rounded to \<open>1\<close> and the result is \<open>A\<close>. The sigmoid reaches the excluded end of
  \<open>(0, A)\<close>: at \<open>t = 40\<close>, \<open>A = 1\<close> the result is \<open>A\<close>. For the negative amplitude \<open>A = - 1\<close>
  the pulse at \<open>t = 0\<close> is \<open>- 1\<close>, which is not in \<open>[0, A]\<close>.
\<close>

theorem range_bounds_counterexample:
  "sawtoothw double (mpf 53) (mp (mpf 53)) (- 1) 1 (2 ^ 60) = Inr 1 \<and> \<not> (1 :: real) < 1 \<and>
   sigmoidw (mpf 53) (mp (mpf 53)) 40 1 = Inr 1 \<and>
   unit_triangle double 0 (- 1) = - 1 \<and> \<not> (0 :: real) \<le> - 1"
proof -
  have rd_q: "round_double (- (1 / 1152921504606846976)) = - (1 / 1152921504606846976)"
    by (simp add: round_double_at [of "- 60"] rne_def)
  have rp_f: "round_prec 53 (1152921504606846975 / 1152921504606846976) = 1"
    by (simp add: round_prec_53_at [of "- 1"] rne_def)
  have a: "sawtoothw double (mpf 53) (mp (mpf 53)) (- 1) 1 (2 ^ 60) = Inr 1"
    by (simp add: sawtoothw_def py_div_def py_mul_def mp_def double_def mpf_def rd_q rp_f
        round_prec_one)
  have b: "sigmoidw (mpf 53) (mp (mpf 53)) 40 1 = Inr 1"
    by (simp add: sigmoidw_def py_div_def py_add_def mp_def mpf_def sigmoid_divisor_40
        round_prec_one)
  have rd: "round_double 1 = 1" "round_double (- 1) = - 1"
    using rep_double_consts(1,11) by (simp_all add: rep_def double_def)
  have c: "unit_triangle double 0 (- 1) = - 1"
    by (simp add: unit_triangle_def py_mul_def py_add_def double_def rd)
  from a b c show ?thesis
    by simp
qed

end
